theory Spec2Isabelle
  imports Main "HOL-Library.Sublist" "HOL-Library.Multiset"
begin

section \<open>Messages and the conversation service\<close>

text \<open>
  Opaque structured payloads (tool arguments, input schemas, tool responses) are carried
  as their serialised text; the services pass them through without looking inside.
\<close>

type_synonym json = string

text \<open>
  The content of a LangChain message is either a string or a structured value; the type
  parameter \<open>'j\<close> is the type of the structured values.
\<close>

datatype 'j message_content = Text string | Complex 'j

record tool_call =
  tc_id :: string
  tc_name :: string
  tc_args :: json

text \<open>
  The message classes the services test with \<^verbatim>\<open>instanceof\<close>. \<open>OtherMessage\<close> stands for
  every \<^verbatim>\<open>BaseMessage\<close> that is none of the three named classes (a system message, say).
  An optional field that is \<^verbatim>\<open>undefined\<close> is \<open>None\<close>.
\<close>

datatype 'j base_message =
    HumanMessage "'j message_content"
  | AIMessage "'j message_content" "tool_call list option"
  | ToolMessage "'j message_content" "string option" "string option"
  | OtherMessage "'j message_content"

fun content_of :: "'j base_message \<Rightarrow> 'j message_content" where
  "content_of (HumanMessage c) = c"
| "content_of (AIMessage c tcs) = c"
| "content_of (ToolMessage c cid nm) = c"
| "content_of (OtherMessage c) = c"

fun is_AIMessage :: "'j base_message \<Rightarrow> bool" where
  "is_AIMessage (AIMessage c tcs) = True"
| "is_AIMessage m = False"

fun is_ToolMessage :: "'j base_message \<Rightarrow> bool" where
  "is_ToolMessage (ToolMessage c cid nm) = True"
| "is_ToolMessage m = False"

record message_metadata =
  md_tool_calls :: "tool_call list option"
  md_tool_call_id :: "string option"
  md_name :: "string option"

text \<open>
  \<open>message_data\<close> is one element of the array handed to \<^verbatim>\<open>createMany\<close>; a stored row
  adds the creation time the store orders by. The role is the string the code writes.
\<close>

record message_data =
  conversationId :: string
  role :: string
  content :: string
  metadata :: "message_metadata option"

record message_row = message_data +
  createdAt :: nat

definition stamp :: "nat \<Rightarrow> message_data \<Rightarrow> message_row" where
  "stamp t d = \<lparr>conversationId = conversationId d, role = role d, content = content d,
                metadata = metadata d, createdAt = t\<rparr>"

definition row_data :: "message_row \<Rightarrow> message_data" where
  "row_data r = \<lparr>conversationId = conversationId r, role = role r, content = content r,
                 metadata = metadata r\<rparr>"

subsection \<open>The store\<close>

text \<open>
  Modelled from the spec: the Prisma client and its schema (\<^verbatim>\<open>db/prisma.ts\<close>,
  \<^verbatim>\<open>schema.prisma\<close>) are not among the sources. Messages are ordered by creation time
  within a conversation, so the message table is the list of rows in insertion order, each
  stamped with the store's clock when its statement ran; a statement against a store with
  a fault raises that fault and changes nothing.
\<close>

record prisma_db =
  message_table :: "message_row list"
  now :: nat
  fault :: "string option"

definition createMany :: "prisma_db \<Rightarrow> message_data list \<Rightarrow> string + prisma_db" where
  "createMany db ds =
     (case fault db of
        Some e \<Rightarrow> Inl e
      | None \<Rightarrow> Inr (db\<lparr>message_table := message_table db @ map (stamp (now db)) ds,
                         now := Suc (now db)\<rparr>))"

definition order_by_desc :: "('a \<Rightarrow> nat) \<Rightarrow> 'a list \<Rightarrow> 'a list" where
  "order_by_desc k rs = rev (sort_key k rs)"

definition findMany :: "prisma_db \<Rightarrow> string \<Rightarrow> nat \<Rightarrow> string + message_row list" where
  "findMany db cid lim =
     (case fault db of
        Some e \<Rightarrow> Inl e
      | None \<Rightarrow> Inr (take lim (order_by_desc createdAt
                        (filter (\<lambda>r. conversationId r = cid) (message_table db)))))"

subsection \<open>ConversationService\<close>

fun mapMessageRole :: "'j base_message \<Rightarrow> string" where
  "mapMessageRole (HumanMessage c) = ''USER''"
| "mapMessageRole (AIMessage c tcs) = ''ASSISTANT''"
| "mapMessageRole (ToolMessage c cid nm) = ''TOOL''"
| "mapMessageRole (OtherMessage c) = ''USER''"

definition messageData :: "('j \<Rightarrow> string) \<Rightarrow> string \<Rightarrow> 'j base_message \<Rightarrow> message_data" where
  "messageData stringify cid message =
     \<lparr>conversationId = cid,
      role = mapMessageRole message,
      content = (case content_of message of Text s \<Rightarrow> s | Complex j \<Rightarrow> stringify j),
      metadata = Some
        \<lparr>md_tool_calls = (case message of AIMessage c tcs \<Rightarrow> tcs | _ \<Rightarrow> None),
         md_tool_call_id = (case message of ToolMessage c i nm \<Rightarrow> i | _ \<Rightarrow> None),
         md_name = (case message of ToolMessage c i nm \<Rightarrow> nm | _ \<Rightarrow> None)\<rparr>\<rparr>"

text \<open>
  \<^verbatim>\<open>saveMessages\<close> maps every message to its row data and inserts them with one
  \<^verbatim>\<open>createMany\<close>; an error of the store is rethrown (\<open>Inl\<close>). \<open>stringify\<close> is
  \<^verbatim>\<open>JSON.stringify\<close> on structured content.
\<close>

definition saveMessages ::
  "('j \<Rightarrow> string) \<Rightarrow> prisma_db \<Rightarrow> string \<Rightarrow> 'j base_message list \<Rightarrow> string + prisma_db" where
  "saveMessages stringify db cid messages =
     createMany db (map (messageData stringify cid) messages)"

definition row_message :: "message_row \<Rightarrow> 'j base_message" where
  "row_message msg =
     (let md = metadata msg in
      if role msg = ''USER'' then HumanMessage (Text (content msg))
      else if role msg = ''ASSISTANT'' then
        AIMessage (Text (content msg))
          (Some (case Option.bind md md_tool_calls of None \<Rightarrow> [] | Some tcs \<Rightarrow> tcs))
      else if role msg = ''TOOL'' then
        ToolMessage (Text (content msg)) (Option.bind md md_tool_call_id)
          (Option.bind md md_name)
      else HumanMessage (Text (content msg)))"

text \<open>
  \<^verbatim>\<open>getConversationMessages\<close>: the query asks for the rows of the conversation, newest
  first, at most \<open>lim\<close> of them; the result is reversed and each row rebuilt as a message
  (the constructor of \<^verbatim>\<open>AIMessage\<close> turns missing tool calls into the empty array).
  Whatever is raised inside is caught and the empty array returned. The limit is a count.
\<close>

definition getConversationMessages :: "prisma_db \<Rightarrow> string \<Rightarrow> nat \<Rightarrow> 'j base_message list" where
  "getConversationMessages db cid lim =
     (case findMany db cid lim of
        Inl e \<Rightarrow> []
      | Inr messages \<Rightarrow> map row_message (rev messages))"

section \<open>The MCP service\<close>

record mcp_tool =
  tool_name :: string
  tool_schema :: json

text \<open>
  The SDK client of one server process, as the service uses it: what \<^verbatim>\<open>listTools\<close>
  answers (an error, or a response whose \<^verbatim>\<open>tools\<close> may be missing) and what
  \<^verbatim>\<open>callTool\<close> answers for a tool name and arguments.
\<close>

record mcp_client =
  remote_listTools :: "string + mcp_tool list option"
  remote_callTool :: "string \<Rightarrow> json \<Rightarrow> string + json"

record mcp_server =
  srv_name :: string
  srv_command :: string
  srv_args :: "string list"
  srv_client :: "mcp_client option"
  srv_tools :: "mcp_tool list option"

text \<open>
  A JavaScript \<^verbatim>\<open>Map\<close> iterates in insertion order and \<^verbatim>\<open>set\<close> on a present key keeps
  its place; a \<^verbatim>\<open>Set\<close> likewise. Both are lists here.
\<close>

fun map_get :: "('k \<times> 'v) list \<Rightarrow> 'k \<Rightarrow> 'v option" where
  "map_get [] k = None"
| "map_get ((k', v) # m) k = (if k' = k then Some v else map_get m k)"

fun map_set :: "'k \<Rightarrow> 'v \<Rightarrow> ('k \<times> 'v) list \<Rightarrow> ('k \<times> 'v) list" where
  "map_set k v [] = [(k, v)]"
| "map_set k v ((k', v') # m) = (if k' = k then (k, v) # m else (k', v') # map_set k v m)"

definition map_delete :: "'k \<Rightarrow> ('k \<times> 'v) list \<Rightarrow> ('k \<times> 'v) list" where
  "map_delete k m = filter (\<lambda>kv. fst kv \<noteq> k) m"

definition set_add :: "'a \<Rightarrow> 'a list \<Rightarrow> 'a list" where
  "set_add x s = (if x \<in> set s then s else s @ [x])"

definition set_delete :: "'a \<Rightarrow> 'a list \<Rightarrow> 'a list" where
  "set_delete x s = filter (\<lambda>y. y \<noteq> x) s"

record mcp_service =
  servers :: "(string \<times> mcp_server) list"
  connectedServers :: "string list"

definition new_MCPService :: mcp_service where
  "new_MCPService = \<lparr>servers = [], connectedServers = []\<rparr>"

text \<open>
  \<^verbatim>\<open>connectServer\<close>: \<open>conn\<close> is the outcome of starting the process and connecting the
  client to it. A failure is rethrown and nothing is stored; on success the server is
  stored without a tool list and its name added to the connected set.
\<close>

definition connectServer ::
  "mcp_service \<Rightarrow> string \<Rightarrow> string \<Rightarrow> string list \<Rightarrow> string + mcp_client \<Rightarrow> string + mcp_service" where
  "connectServer svc name command args conn =
     (case conn of
        Inl e \<Rightarrow> Inl e
      | Inr client \<Rightarrow>
          Inr (svc\<lparr>servers := map_set name
                      \<lparr>srv_name = name, srv_command = command, srv_args = args,
                       srv_client = Some client, srv_tools = None\<rparr> (servers svc),
                    connectedServers := set_add name (connectedServers svc)\<rparr>))"

text \<open>The transport's \<^verbatim>\<open>onclose\<close> handler installed by \<^verbatim>\<open>connectServer\<close>.\<close>

definition transport_onclose :: "mcp_service \<Rightarrow> string \<Rightarrow> mcp_service" where
  "transport_onclose svc name = svc\<lparr>connectedServers := set_delete name (connectedServers svc)\<rparr>"

definition disconnectServer :: "mcp_service \<Rightarrow> string \<Rightarrow> mcp_service" where
  "disconnectServer svc name =
     (case map_get (servers svc) name of
        None \<Rightarrow> svc
      | Some server \<Rightarrow>
          (case srv_client server of
             None \<Rightarrow> svc
           | Some client \<Rightarrow>
               svc\<lparr>servers := map_delete name (servers svc),
                   connectedServers := set_delete name (connectedServers svc)\<rparr>))"

text \<open>
  \<^verbatim>\<open>listTools\<close> returns the tools and caches them in the stored server; every error
  (server unknown, no client, the client's call failing) gives the empty array and no
  change.
\<close>

definition listTools :: "mcp_service \<Rightarrow> string \<Rightarrow> mcp_tool list \<times> mcp_service" where
  "listTools svc serverName =
     (case map_get (servers svc) serverName of
        None \<Rightarrow> ([], svc)
      | Some server \<Rightarrow>
          (case srv_client server of
             None \<Rightarrow> ([], svc)
           | Some client \<Rightarrow>
               (case remote_listTools client of
                  Inl e \<Rightarrow> ([], svc)
                | Inr response \<Rightarrow>
                    (let tools = (case response of None \<Rightarrow> [] | Some ts \<Rightarrow> ts) in
                     (tools, svc\<lparr>servers := map_set serverName
                                   (server\<lparr>srv_tools := Some tools\<rparr>) (servers svc)\<rparr>)))))"

fun getAllTools_loop :: "string list \<Rightarrow> mcp_tool list \<Rightarrow> mcp_service \<Rightarrow> mcp_tool list \<times> mcp_service" where
  "getAllTools_loop [] allTools svc = (allTools, svc)"
| "getAllTools_loop (serverName # rest) allTools svc =
     (case listTools svc serverName of
        (tools, svc') \<Rightarrow> getAllTools_loop rest (allTools @ tools) svc')"

definition getAllTools :: "mcp_service \<Rightarrow> mcp_tool list \<times> mcp_service" where
  "getAllTools svc = getAllTools_loop (connectedServers svc) [] svc"

definition callTool :: "mcp_service \<Rightarrow> string \<Rightarrow> string \<Rightarrow> json \<Rightarrow> string + json" where
  "callTool svc serverName toolName args =
     (case map_get (servers svc) serverName of
        None \<Rightarrow> Inl (''Server '' @ serverName @ '' not connected'')
      | Some server \<Rightarrow>
          (case srv_client server of
             None \<Rightarrow> Inl (''Server '' @ serverName @ '' not connected'')
           | Some client \<Rightarrow> remote_callTool client toolName args))"

fun getServerForTool_loop :: "(string \<times> mcp_server) list \<Rightarrow> string \<Rightarrow> string option" where
  "getServerForTool_loop [] toolName = None"
| "getServerForTool_loop ((serverName, server) # rest) toolName =
     (case srv_tools server of
        None \<Rightarrow> getServerForTool_loop rest toolName
      | Some tools \<Rightarrow>
          if list_ex (\<lambda>tool. tool_name tool = toolName) tools then Some serverName
          else getServerForTool_loop rest toolName)"

definition getServerForTool :: "mcp_service \<Rightarrow> string \<Rightarrow> string option" where
  "getServerForTool svc toolName = getServerForTool_loop (servers svc) toolName"

definition isConnected :: "mcp_service \<Rightarrow> string \<Rightarrow> bool" where
  "isConnected svc serverName = (serverName \<in> set (connectedServers svc))"

definition getConnectedServers :: "mcp_service \<Rightarrow> string list" where
  "getConnectedServers svc = connectedServers svc"

definition disconnectAll :: "mcp_service \<Rightarrow> mcp_service" where
  "disconnectAll svc = fold (\<lambda>serverName s. disconnectServer s serverName) (connectedServers svc) svc"

section \<open>The entry point\<close>

text \<open>
  Strings are byte strings. \<^verbatim>\<open>toLowerCase\<close> maps the letters A to Z to a to z and leaves
  every other byte as it is; no character outside ASCII lowers to a letter of the three
  command words.
\<close>

definition toLowerCase :: "string \<Rightarrow> string" where
  "toLowerCase s =
     map (\<lambda>c. let n = (of_char c :: nat) in
               if 65 \<le> n \<and> n \<le> 90 then char_of (n + 32) else c) s"

text \<open>
  \<^verbatim>\<open>trim\<close> removes white space and line terminators from both ends. On byte strings
  these are the UTF-8 encodings of the characters JavaScript strips: tab, line feed,
  vertical tab, form feed, carriage return, space, U+00A0, U+1680, U+2000 to U+200A,
  U+2028, U+2029, U+202F, U+205F, U+3000 and U+FEFF. Each round of \<open>strip\<close> removes one
  such character from the front; a string has no more of them than it has bytes.
\<close>

definition bytes :: "nat list \<Rightarrow> string" where
  "bytes ns = map char_of ns"

definition white_space :: "string list" where
  "white_space =
     map bytes
       ([[9], [10], [11], [12], [13], [32], [0xC2, 0xA0], [0xE1, 0x9A, 0x80]]
        @ map (\<lambda>n. [0xE2, 0x80, n]) [0x80 ..< 0x8B]
        @ [[0xE2, 0x80, 0xA8], [0xE2, 0x80, 0xA9], [0xE2, 0x80, 0xAF], [0xE2, 0x81, 0x9F],
           [0xE3, 0x80, 0x80], [0xEF, 0xBB, 0xBF]])"

fun strip :: "string list \<Rightarrow> nat \<Rightarrow> string \<Rightarrow> string" where
  "strip ws 0 s = s"
| "strip ws (Suc n) s =
     (case find (\<lambda>w. w \<noteq> [] \<and> prefix w s) ws of
        None \<Rightarrow> s
      | Some w \<Rightarrow> strip ws n (drop (length w) s))"

definition trimStart :: "string \<Rightarrow> string" where
  "trimStart s = strip white_space (length s) s"

definition trimEnd :: "string \<Rightarrow> string" where
  "trimEnd s = rev (strip (map rev white_space) (length s) (rev s))"

definition trim :: "string \<Rightarrow> string" where
  "trim s = trimEnd (trimStart s)"

datatype cli_event =
    DisplayInfo string
  | DisplayHelp
  | DisplayTools "mcp_tool list"
  | DisplayThinking
  | StopThinking
  | DisplayResponse string
  | DisplayError string

datatype command_result = Exit | Continue

record conversation =
  conv_id :: string
  conv_userId :: string
  conv_title :: string

record 'j agent_state =
  messages :: "'j base_message list"
  as_conversationId :: string
  shouldContinue :: bool
  toolResults :: "(string \<times> json) list"
  workingDirectory :: string

text \<open>
  What a call of \<^verbatim>\<open>processUserInput\<close> can touch: the terminal (the calls made on the CLI
  object, in order), the store, and the agent graph (the states it was invoked with, in
  order).
\<close>

record 'j world =
  cli :: "cli_event list"
  db :: prisma_db
  graph_invocations :: "'j agent_state list"

text \<open>
  The compiled agent graph (\<^verbatim>\<open>agent/graph.ts\<close>) is a parameter: invoked with a state and
  the store it either does not return (\<open>None\<close>), raises, or returns the final state;
  in both cases the store is as the graph left it.
\<close>

type_synonym 'j agent_graph =
  "'j agent_state \<Rightarrow> prisma_db \<Rightarrow> ((string + 'j agent_state) \<times> prisma_db) option"

definition goodbye :: string where
  "goodbye = ''Goodbye! '' @ [char_of (0xF0 :: nat), char_of (0x9F :: nat),
                             char_of (0x91 :: nat), char_of (0x8B :: nat)]"

definition initialState :: "prisma_db \<Rightarrow> string \<Rightarrow> conversation \<Rightarrow> string \<Rightarrow> 'j agent_state" where
  "initialState store cwd conversation userInput =
     (let conversationHistory = getConversationMessages store (conv_id conversation) 10 in
      \<lparr>messages = conversationHistory @ [HumanMessage (Text userInput)],
       as_conversationId = conv_id conversation,
       shouldContinue = True,
       toolResults = [],
       workingDirectory = cwd\<rparr>)"

fun findFinalResponse_loop :: "'j base_message list \<Rightarrow> string" where
  "findFinalResponse_loop [] = []"
| "findFinalResponse_loop (AIMessage (Text s) tcs # rest) =
     (if s \<noteq> [] \<and> length (trim s) > 0 then s else findFinalResponse_loop rest)"
| "findFinalResponse_loop (msg # rest) = findFinalResponse_loop rest"

definition findFinalResponse :: "'j base_message list \<Rightarrow> string" where
  "findFinalResponse ms = findFinalResponse_loop (rev ms)"

definition processUserInput ::
  "'j agent_graph \<Rightarrow> string \<Rightarrow> 'j world \<Rightarrow> string \<Rightarrow> conversation \<Rightarrow> mcp_tool list
     \<Rightarrow> ((string + command_result) \<times> 'j world) option" where
  "processUserInput graph cwd w userInput conversation availableTools =
     (if toLowerCase userInput = ''/exit'' then
        Some (Inr Exit, w\<lparr>cli := cli w @ [DisplayInfo goodbye]\<rparr>)
      else if toLowerCase userInput = ''/help'' then
        Some (Inr Continue, w\<lparr>cli := cli w @ [DisplayHelp]\<rparr>)
      else if toLowerCase userInput = ''/tools'' then
        Some (Inr Continue, w\<lparr>cli := cli w @ [DisplayTools availableTools]\<rparr>)
      else
        (let w1 = w\<lparr>cli := cli w @ [DisplayThinking]\<rparr>;
             st = initialState (db w1) cwd conversation userInput;
             w2 = w1\<lparr>graph_invocations := graph_invocations w1 @ [st]\<rparr>
         in case graph st (db w2) of
              None \<Rightarrow> None
            | Some (Inl e, store') \<Rightarrow> Some (Inl e, w2\<lparr>db := store'\<rparr>)
            | Some (Inr result, store') \<Rightarrow>
                (let finalResponse = findFinalResponse (messages result) in
                 Some (Inr Continue,
                   w2\<lparr>db := store',
                      cli := cli w2 @ [StopThinking,
                        DisplayResponse
                          (if finalResponse \<noteq> [] then finalResponse
                           else ''I processed your request but have no response to show.'')]\<rparr>))))"

text \<open>
  One round of the \<^verbatim>\<open>while (true)\<close> of \<^verbatim>\<open>main\<close> on the line the prompt returned: the
  flag says whether the loop breaks. An error raised by \<^verbatim>\<open>processUserInput\<close> is caught,
  shown, and the loop goes on.
\<close>

definition main_loop_body ::
  "'j agent_graph \<Rightarrow> string \<Rightarrow> 'j world \<Rightarrow> string \<Rightarrow> conversation \<Rightarrow> mcp_tool list
     \<Rightarrow> (bool \<times> 'j world) option" where
  "main_loop_body graph cwd w userInput conversation availableTools =
     (case processUserInput graph cwd w userInput conversation availableTools of
        None \<Rightarrow> None
      | Some (Inr result, w') \<Rightarrow> Some (result = Exit, w')
      | Some (Inl e, w') \<Rightarrow>
          Some (False, w'\<lparr>cli := cli w' @ [StopThinking, DisplayError (''An error occurred: '' @ e)]\<rparr>))"

fun main_loop ::
  "'j agent_graph \<Rightarrow> string \<Rightarrow> 'j world \<Rightarrow> conversation \<Rightarrow> mcp_tool list \<Rightarrow> string list
     \<Rightarrow> 'j world option" where
  "main_loop graph cwd w conversation availableTools [] = Some w"
| "main_loop graph cwd w conversation availableTools (userInput # rest) =
     (case main_loop_body graph cwd w userInput conversation availableTools of
        None \<Rightarrow> None
      | Some (stop, w') \<Rightarrow>
          if stop then Some w' else main_loop graph cwd w' conversation availableTools rest)"

section \<open>The orchestration loop\<close>

text \<open>
  Modelled from the spec: the agent graph and its nodes (\<^verbatim>\<open>agent/graph.ts\<close>,
  \<^verbatim>\<open>agent/nodes.ts\<close>, \<^verbatim>\<open>agent/state.ts\<close>) and the generator client are not among the
  sources. What follows is the loop of section 4.1 of the specification: the states
  \<open>GENERATING\<close>, \<open>AWAITING_TOOLS\<close> and \<open>DONE\<close>, one generation or one round of tool
  executions per step, and the messages of a step appended to the conversation store
  (with \<open>saveMessages\<close>, the store's append of the sources) before the step ends.
\<close>

datatype outcome = FinalAnswer string | CapabilityRequest "tool_call list"

text \<open>The payload of a capability call's result: the output, or the reason of the failure.\<close>

datatype call_payload = Output json | Failure string

record capability_descriptor =
  cap_name :: string
  cap_provider :: string
  cap_schema :: json

type_synonym message = "call_payload base_message"

type_synonym generator = "message list \<Rightarrow> capability_descriptor list \<Rightarrow> string + outcome"

type_synonym gateway = "tool_call \<Rightarrow> string + json"

datatype loop_state = GENERATING | AWAITING_TOOLS | DONE

record turn =
  t_state :: loop_state
  t_history :: "message list"
  t_produced :: "message list"
  t_pending :: "tool_call list"
  t_store :: prisma_db
  t_generations :: nat

definition start_turn :: "message list \<Rightarrow> prisma_db \<Rightarrow> turn" where
  "start_turn history store =
     \<lparr>t_state = GENERATING, t_history = history, t_produced = [], t_pending = [],
      t_store = store, t_generations = 0\<rparr>"

text \<open>
  Modelled from the spec: the messages the steps append (the nodes that build them are
  not among the sources). A final answer is an assistant message with the answer's text; a
  request is an assistant message carrying the call descriptors; a call's result is a tool
  message with the call's id and capability name, whose content is the output or the
  failure reason.
\<close>

definition answer_message :: "string \<Rightarrow> message" where
  "answer_message text = AIMessage (Text text) None"

definition request_message :: "tool_call list \<Rightarrow> message" where
  "request_message calls = AIMessage (Text []) (Some calls)"

definition tool_message :: "gateway \<Rightarrow> tool_call \<Rightarrow> message" where
  "tool_message execute call =
     ToolMessage
       (Complex (case execute call of Inl reason \<Rightarrow> Failure reason | Inr out \<Rightarrow> Output out))
       (Some (tc_id call)) (Some (tc_name call))"

text \<open>
  Modelled from the spec: appending the messages of a step (the nodes' calls of the store
  are not among the sources). They go to the store in one \<open>saveMessages\<close> and then
  into the history; a store error aborts the step.
\<close>

definition append_messages ::
  "(call_payload \<Rightarrow> string) \<Rightarrow> string \<Rightarrow> loop_state \<Rightarrow> tool_call list \<Rightarrow> message list \<Rightarrow> turn
     \<Rightarrow> string + turn" where
  "append_messages stringify cid next pending ms t =
     (case saveMessages stringify (t_store t) cid ms of
        Inl e \<Rightarrow> Inl e
      | Inr store' \<Rightarrow>
          Inr (t\<lparr>t_state := next, t_history := t_history t @ ms,
                 t_produced := t_produced t @ ms, t_pending := pending, t_store := store'\<rparr>))"

text \<open>
  Modelled from the spec: one step of the loop of section 4.1 (\<^verbatim>\<open>agent/nodes.ts\<close> is not
  among the sources). In \<open>GENERATING\<close> the generator is called on the history: its
  failure is raised, a final answer is appended and ends the turn, a request is appended
  and its calls become pending. In \<open>AWAITING_TOOLS\<close> every pending call is executed
  through the gateway, in order, and the tool messages are appended. \<open>t_generations\<close>
  counts the generations.
\<close>

definition step ::
  "generator \<Rightarrow> gateway \<Rightarrow> (call_payload \<Rightarrow> string) \<Rightarrow> capability_descriptor list \<Rightarrow> string
     \<Rightarrow> turn \<Rightarrow> string + turn" where
  "step generate execute stringify capabilities cid t =
     (case t_state t of
        GENERATING \<Rightarrow>
          (case generate (t_history t) capabilities of
             Inl e \<Rightarrow> Inl e
           | Inr (FinalAnswer text) \<Rightarrow>
               append_messages stringify cid DONE [] [answer_message text]
                 (t\<lparr>t_generations := Suc (t_generations t)\<rparr>)
           | Inr (CapabilityRequest calls) \<Rightarrow>
               append_messages stringify cid AWAITING_TOOLS calls [request_message calls]
                 (t\<lparr>t_generations := Suc (t_generations t)\<rparr>))
      | AWAITING_TOOLS \<Rightarrow>
          append_messages stringify cid GENERATING [] (map (tool_message execute) (t_pending t)) t
      | DONE \<Rightarrow> Inr t)"

text \<open>\<open>steps k\<close>: \<open>k\<close> steps in a row, stopping at the first that raises.\<close>

fun steps ::
  "generator \<Rightarrow> gateway \<Rightarrow> (call_payload \<Rightarrow> string) \<Rightarrow> capability_descriptor list \<Rightarrow> string
     \<Rightarrow> nat \<Rightarrow> turn \<Rightarrow> string + turn" where
  "steps generate execute stringify capabilities cid 0 t = Inr t"
| "steps generate execute stringify capabilities cid (Suc k) t =
     (case step generate execute stringify capabilities cid t of
        Inl e \<Rightarrow> Inl e
      | Inr t' \<Rightarrow> steps generate execute stringify capabilities cid k t')"

text \<open>
  Modelled from the spec: \<^verbatim>\<open>runTurn\<close>, the loop of section 4.1 (\<^verbatim>\<open>agent/graph.ts\<close> is not
  among the sources): steps are taken until \<open>DONE\<close>. The result of a turn: it reached
  \<open>DONE\<close>, or a step raised; the turn is then as the last completed step left it. The
  loop has no bound of its own, so the model counts steps down from \<open>fuel\<close>: \<open>None\<close>
  is a turn that is still running when the fuel is spent.
\<close>

datatype turn_result = TurnDone turn | TurnFailed string turn

fun run_from ::
  "generator \<Rightarrow> gateway \<Rightarrow> (call_payload \<Rightarrow> string) \<Rightarrow> capability_descriptor list \<Rightarrow> string
     \<Rightarrow> nat \<Rightarrow> turn \<Rightarrow> turn_result option" where
  "run_from generate execute stringify capabilities cid 0 t =
     (if t_state t = DONE then Some (TurnDone t) else None)"
| "run_from generate execute stringify capabilities cid (Suc fuel) t =
     (if t_state t = DONE then Some (TurnDone t)
      else case step generate execute stringify capabilities cid t of
             Inl e \<Rightarrow> Some (TurnFailed e t)
           | Inr t' \<Rightarrow> run_from generate execute stringify capabilities cid fuel t')"

definition runTurn ::
  "generator \<Rightarrow> gateway \<Rightarrow> (call_payload \<Rightarrow> string) \<Rightarrow> string \<Rightarrow> prisma_db \<Rightarrow> nat
     \<Rightarrow> message list \<Rightarrow> capability_descriptor list \<Rightarrow> turn_result option" where
  "runTurn generate execute stringify cid store fuel history capabilities =
     run_from generate execute stringify capabilities cid fuel (start_turn history store)"

text \<open>
  Modelled from the spec: the gateway's execute operation over the MCP service of the
  sources (the node that calls the service is not among the sources; routing is the
  gateway's responsibility). The call is routed with \<open>getServerForTool\<close> and executed
  on that server with \<open>callTool\<close>; a tool without a server is a failure.
\<close>

definition mcp_gateway :: "mcp_service \<Rightarrow> gateway" where
  "mcp_gateway svc call =
     (case getServerForTool svc (tc_name call) of
        None \<Rightarrow> Inl (''No server provides '' @ tc_name call)
      | Some serverName \<Rightarrow> callTool svc serverName (tc_name call) (tc_args call))"

text \<open>Reading the linkage of a message: the calls it carries, the call it answers.\<close>

fun tool_calls_of :: "'j base_message \<Rightarrow> tool_call list option" where
  "tool_calls_of (AIMessage c tcs) = tcs"
| "tool_calls_of m = None"

fun tool_call_id_of :: "'j base_message \<Rightarrow> string option" where
  "tool_call_id_of (ToolMessage c i nm) = i"
| "tool_call_id_of m = None"

text \<open>
  Modelled from the spec: the loop as the graph \<^verbatim>\<open>processUserInput\<close> invokes
  (\<^verbatim>\<open>agent/graph.ts\<close> is not among the sources): the turn is run on the messages of the
  state, for the state's conversation.
\<close>

definition turn_graph ::
  "generator \<Rightarrow> gateway \<Rightarrow> (call_payload \<Rightarrow> string) \<Rightarrow> capability_descriptor list \<Rightarrow> nat
     \<Rightarrow> call_payload agent_graph" where
  "turn_graph generate execute stringify capabilities fuel st store =
     (case runTurn generate execute stringify (as_conversationId st) store fuel (messages st)
             capabilities of
        None \<Rightarrow> None
      | Some (TurnFailed e t) \<Rightarrow> Some (Inl e, t_store t)
      | Some (TurnDone t) \<Rightarrow>
          Some (Inr (st\<lparr>messages := t_history t, shouldContinue := False\<rparr>), t_store t))"

section \<open>Histories of the MCP service\<close>

text \<open>
  The calls a client of the service can make, with what they change, to speak about every
  state the service can be in. A listing call also hands back the tools it returned.
\<close>

datatype mcp_op =
    Connect string string "string list" "string + mcp_client"
  | Disconnect string
  | OnClose string
  | ListTools string
  | GetAllTools
  | DisconnectAll

fun apply_op :: "mcp_service \<Rightarrow> mcp_op \<Rightarrow> mcp_service \<times> mcp_tool list" where
  "apply_op svc (Connect name command args conn) =
     (case connectServer svc name command args conn of
        Inl e \<Rightarrow> (svc, [])
      | Inr svc' \<Rightarrow> (svc', []))"
| "apply_op svc (Disconnect name) = (disconnectServer svc name, [])"
| "apply_op svc (OnClose name) = (transport_onclose svc name, [])"
| "apply_op svc (ListTools name) = (case listTools svc name of (tools, svc') \<Rightarrow> (svc', tools))"
| "apply_op svc GetAllTools = (case getAllTools svc of (tools, svc') \<Rightarrow> (svc', tools))"
| "apply_op svc DisconnectAll = (disconnectAll svc, [])"

fun run_ops :: "mcp_service \<Rightarrow> mcp_tool list \<Rightarrow> mcp_op list \<Rightarrow> mcp_service \<times> mcp_tool list" where
  "run_ops svc listed [] = (svc, listed)"
| "run_ops svc listed (op # ops) =
     (case apply_op svc op of (svc', tools) \<Rightarrow> run_ops svc' (listed @ tools) ops)"

definition cached_within :: "mcp_tool set \<Rightarrow> (string \<times> mcp_server) list \<Rightarrow> bool" where
  "cached_within L m =
     (\<forall>entry \<in> set m. case srv_tools (snd entry) of None \<Rightarrow> True | Some ts \<Rightarrow> set ts \<subseteq> L)"

section \<open>Concrete instances\<close>

text \<open>A small store, a service with one server, and a world, to run the definitions on.\<close>

definition example_rows :: "message_row list" where
  "example_rows =
     [\<lparr>conversationId = ''c'', role = ''USER'', content = ''first'', metadata = None, createdAt = 1\<rparr>,
      \<lparr>conversationId = ''d'', role = ''USER'', content = ''other'', metadata = None, createdAt = 2\<rparr>,
      \<lparr>conversationId = ''c'', role = ''ASSISTANT'', content = ''second'', metadata = None, createdAt = 3\<rparr>,
      \<lparr>conversationId = ''c'', role = ''USER'', content = ''third'', metadata = None, createdAt = 4\<rparr>]"

definition example_store :: prisma_db where
  "example_store = \<lparr>message_table = example_rows, now = 5, fault = None\<rparr>"

definition broken_store :: prisma_db where
  "broken_store = \<lparr>message_table = example_rows, now = 5, fault = Some ''connection refused''\<rparr>"

definition example_conversation :: conversation where
  "example_conversation = \<lparr>conv_id = ''c'', conv_userId = ''user'', conv_title = ''t''\<rparr>"

definition example_world :: "call_payload world" where
  "example_world = \<lparr>cli = [], db = example_store, graph_invocations = []\<rparr>"

definition fs_client :: mcp_client where
  "fs_client =
     \<lparr>remote_listTools = Inr (Some [\<lparr>tool_name = ''read_file'', tool_schema = ''{}''\<rparr>,
                                    \<lparr>tool_name = ''write_file'', tool_schema = ''{}''\<rparr>]),
      remote_callTool =
        (\<lambda>n a. if n = ''read_file'' then Inr ''contents'' else Inl ''permission denied'')\<rparr>"

definition connected_only :: "mcp_op list" where
  "connected_only = [Connect ''filesystem'' ''npx'' [''-y''] (Inr fs_client)]"

definition connected_listed :: "mcp_op list" where
  "connected_listed =
     [Connect ''filesystem'' ''npx'' [''-y''] (Inr fs_client), ListTools ''filesystem'']"

definition example_service :: mcp_service where
  "example_service = fst (run_ops new_MCPService [] connected_listed)"

definition read_call :: tool_call where
  "read_call = \<lparr>tc_id = ''call_1'', tc_name = ''read_file'', tc_args = ''{}''\<rparr>"

definition write_call :: tool_call where
  "write_call = \<lparr>tc_id = ''call_2'', tc_name = ''write_file'', tc_args = ''{}''\<rparr>"

text \<open>
  A generator that answers a lone greeting, asks for two calls on a history of four
  messages, and is unreachable otherwise.
\<close>

definition example_generator :: generator where
  "example_generator history capabilities =
     (if length history = 1 then Inr (FinalAnswer ''Hello!'')
      else if length history = 4 then Inr (CapabilityRequest [read_call, write_call])
      else Inl ''upstream error'')"

definition example_stringify :: "call_payload \<Rightarrow> string" where
  "example_stringify p = (case p of Output out \<Rightarrow> out | Failure reason \<Rightarrow> ''error: '' @ reason)"

definition example_history :: "message list" where
  "example_history = messages (initialState example_store ''/home'' example_conversation ''list files'')"


section \<open>Routing a tool name\<close>

lemmas mcp_eval = new_MCPService_def connectServer_def listTools_def callTool_def
  getServerForTool_def set_add_def Let_def fs_client_def connected_only_def connected_listed_def
  example_service_def

lemma set_map_set: "set (map_set k v m) \<subseteq> insert (k, v) (set m)"
  by (induction m) (auto split: if_splits)

lemma cached_within_map_set:
  "cached_within L m \<Longrightarrow> (case srv_tools v of None \<Rightarrow> True | Some ts \<Rightarrow> set ts \<subseteq> L)
     \<Longrightarrow> cached_within L (map_set k v m)"
  using set_map_set [of k v m] by (auto simp: cached_within_def)

lemma cached_within_map_delete: "cached_within L m \<Longrightarrow> cached_within L (map_delete k m)"
  by (auto simp: cached_within_def map_delete_def)

lemma cached_within_mono: "cached_within L m \<Longrightarrow> L \<subseteq> L' \<Longrightarrow> cached_within L' m"
  by (fastforce simp: cached_within_def split: option.splits)

lemma listTools_cached:
  "cached_within L (servers svc) \<Longrightarrow> listTools svc n = (ts, svc')
     \<Longrightarrow> cached_within (L \<union> set ts) (servers svc')"
  by (auto simp: listTools_def Let_def split: option.splits sum.splits
      intro!: cached_within_map_set intro: cached_within_mono)

lemma getAllTools_loop_cached:
  "cached_within L (servers svc) \<Longrightarrow> getAllTools_loop ns acc svc = (ts, svc')
     \<Longrightarrow> set acc \<subseteq> L \<Longrightarrow> cached_within (L \<union> set ts) (servers svc') \<and> set acc \<subseteq> set ts"
proof (induction ns arbitrary: acc svc L)
  case Nil
  then show ?case by (auto intro: cached_within_mono)
next
  case (Cons n ns)
  obtain tools svc1 where l: "listTools svc n = (tools, svc1)" by (cases "listTools svc n")
  with Cons.prems have r: "getAllTools_loop ns (acc @ tools) svc1 = (ts, svc')" by simp
  have c: "cached_within (L \<union> set tools) (servers svc1)"
    using listTools_cached [OF Cons.prems(1) l] .
  have "set (acc @ tools) \<subseteq> L \<union> set tools" using Cons.prems(3) by auto
  from Cons.IH [OF c r this]
  have "cached_within (L \<union> set tools \<union> set ts) (servers svc')" and s: "set (acc @ tools) \<subseteq> set ts"
    by auto
  moreover have "L \<union> set tools \<union> set ts = L \<union> set ts" using s by auto
  ultimately show ?case using s by auto
qed

lemma disconnectServer_cached:
  "cached_within L (servers svc) \<Longrightarrow> cached_within L (servers (disconnectServer svc n))"
  by (auto simp: disconnectServer_def split: option.splits intro: cached_within_map_delete)

lemma fold_disconnect_cached:
  "cached_within L (servers svc)
     \<Longrightarrow> cached_within L (servers (fold (\<lambda>serverName s. disconnectServer s serverName) ns svc))"
  by (induction ns arbitrary: svc) (auto intro: disconnectServer_cached)

lemma apply_op_cached:
  "cached_within L (servers svc) \<Longrightarrow> apply_op svc op = (svc', ts)
     \<Longrightarrow> cached_within (L \<union> set ts) (servers svc')"
proof (cases op)
  case (Connect n c a conn)
  assume "cached_within L (servers svc)" "apply_op svc op = (svc', ts)"
  with Connect show ?thesis
    by (auto simp: connectServer_def split: sum.splits intro!: cached_within_map_set)
next
  case (Disconnect n)
  assume "cached_within L (servers svc)" "apply_op svc op = (svc', ts)"
  with Disconnect show ?thesis by (auto intro: disconnectServer_cached)
next
  case (OnClose n)
  assume "cached_within L (servers svc)" "apply_op svc op = (svc', ts)"
  with OnClose show ?thesis by (auto simp: transport_onclose_def)
next
  case (ListTools n)
  assume "cached_within L (servers svc)" "apply_op svc op = (svc', ts)"
  with ListTools show ?thesis by (auto split: prod.splits intro: listTools_cached)
next
  case GetAllTools
  assume "cached_within L (servers svc)" "apply_op svc op = (svc', ts)"
  with GetAllTools show ?thesis
    using getAllTools_loop_cached [of L svc "connectedServers svc" "[]" ts svc']
    by (auto simp: getAllTools_def split: prod.splits)
next
  case DisconnectAll
  assume "cached_within L (servers svc)" "apply_op svc op = (svc', ts)"
  with DisconnectAll show ?thesis by (auto simp: disconnectAll_def intro: fold_disconnect_cached)
qed

lemma run_ops_cached:
  "cached_within (set listed) (servers svc) \<Longrightarrow> run_ops svc listed ops = (svc', listed')
     \<Longrightarrow> cached_within (set listed') (servers svc')"
proof (induction ops arbitrary: svc listed)
  case Nil
  then show ?case by simp
next
  case (Cons op ops)
  obtain svc1 ts where a: "apply_op svc op = (svc1, ts)" by (cases "apply_op svc op")
  with Cons.prems have r: "run_ops svc1 (listed @ ts) ops = (svc', listed')" by simp
  have "cached_within (set (listed @ ts)) (servers svc1)"
    using apply_op_cached [OF Cons.prems(1) a] by simp
  from Cons.IH [OF this r] show ?case .
qed

lemma getServerForTool_loop_Some:
  "getServerForTool_loop m toolName = Some serverName
     \<Longrightarrow> \<exists>server tools. (serverName, server) \<in> set m \<and> srv_tools server = Some tools
           \<and> toolName \<in> tool_name ` set tools"
  by (induction m toolName rule: getServerForTool_loop.induct)
     (auto split: option.splits if_splits simp: list_ex_iff)

lemma getServerForTool_loop_None:
  "(\<forall>entry \<in> set m. \<forall>tools. srv_tools (snd entry) = Some tools \<longrightarrow> toolName \<notin> tool_name ` set tools)
     \<Longrightarrow> getServerForTool_loop m toolName = None"
  by (induction m toolName rule: getServerForTool_loop.induct)
     (auto split: option.splits if_splits simp: list_ex_iff)

lemma getServerForTool_loop_find:
  "getServerForTool_loop m toolName =
     map_option fst
       (find (\<lambda>entry. case srv_tools (snd entry) of
                         None \<Rightarrow> False
                       | Some tools \<Rightarrow> toolName \<in> tool_name ` set tools) m)"
  by (induction m toolName rule: getServerForTool_loop.induct)
     (auto split: option.splits simp: list_ex_iff)

lemma getServerForTool_loop_cached:
  "(serverName, server) \<in> set m \<Longrightarrow> srv_tools server = Some tools
     \<Longrightarrow> toolName \<in> tool_name ` set tools
     \<Longrightarrow> \<exists>routed. getServerForTool_loop m toolName = Some routed"
  by (induction m toolName rule: getServerForTool_loop.induct)
     (auto split: option.splits simp: list_ex_iff)

lemma map_set_present: "map_get m k = Some v \<Longrightarrow> (k, v') \<in> set (map_set k v' m)"
  by (induction m) (auto split: if_splits)

lemma listTools_routes:
  assumes "listTools svc n = (tools, svc')" and "toolName \<in> tool_name ` set tools"
  shows "\<exists>routed. getServerForTool svc' toolName = Some routed"
proof -
  from assms(2) have ne: "tools \<noteq> []" by auto
  from assms(1) ne obtain server where
    g: "map_get (servers svc) n = Some server"
    and s: "servers svc' = map_set n (server\<lparr>srv_tools := Some tools\<rparr>) (servers svc)"
    by (auto simp: listTools_def Let_def split: option.splits sum.splits)
  from map_set_present [OF g] s
  have "(n, server\<lparr>srv_tools := Some tools\<rparr>) \<in> set (servers svc')" by simp
  from getServerForTool_loop_cached [OF this _ assms(2)] show ?thesis
    by (simp add: getServerForTool_def)
qed

text \<open>
  C10. \<open>getServerForTool\<close> looks only at the cached tool lists. A name it returns is
  the name of a stored server whose cached list has the tool; when some stored server's
  cached list has the tool it does return a name, that of the first such server in the
  order of the map; and it returns nothing when no cached list has the tool. A listing
  call that returns the tool makes the tool routed. After any history of calls on a fresh
  service, a tool that no listing call has returned so far has no server, whatever the
  connected servers provide.
\<close>

theorem getServerForTool_routes_through_cache:
  "(getServerForTool svc toolName = Some serverName \<longrightarrow>
      (\<exists>server tools. (serverName, server) \<in> set (servers svc) \<and> srv_tools server = Some tools
         \<and> toolName \<in> tool_name ` set tools))
   \<and> ((\<exists>entry \<in> set (servers svc). \<exists>tools. srv_tools (snd entry) = Some tools
          \<and> toolName \<in> tool_name ` set tools)
        \<longrightarrow> (\<exists>routed. getServerForTool svc toolName = Some routed))
   \<and> getServerForTool svc toolName =
       map_option fst
         (find (\<lambda>entry. case srv_tools (snd entry) of
                           None \<Rightarrow> False
                         | Some tools \<Rightarrow> toolName \<in> tool_name ` set tools) (servers svc))
   \<and> ((\<forall>entry \<in> set (servers svc). \<forall>tools. srv_tools (snd entry) = Some tools
          \<longrightarrow> toolName \<notin> tool_name ` set tools)
        \<longrightarrow> getServerForTool svc toolName = None)
   \<and> (listTools svc listedServer = (listedTools, svc'') \<longrightarrow> toolName \<in> tool_name ` set listedTools
        \<longrightarrow> (\<exists>routed. getServerForTool svc'' toolName = Some routed))
   \<and> (run_ops new_MCPService [] ops = (svc', listed) \<longrightarrow> toolName \<notin> tool_name ` set listed
        \<longrightarrow> getServerForTool svc' toolName = None)"
proof (intro conjI impI)
  assume "getServerForTool svc toolName = Some serverName"
  then show "\<exists>server tools. (serverName, server) \<in> set (servers svc) \<and> srv_tools server = Some tools
         \<and> toolName \<in> tool_name ` set tools"
    unfolding getServerForTool_def by (rule getServerForTool_loop_Some)
next
  assume "\<exists>entry \<in> set (servers svc). \<exists>tools. srv_tools (snd entry) = Some tools
          \<and> toolName \<in> tool_name ` set tools"
  then obtain n server tools where "(n, server) \<in> set (servers svc)" "srv_tools server = Some tools"
    "toolName \<in> tool_name ` set tools"
    by force
  then show "\<exists>routed. getServerForTool svc toolName = Some routed"
    unfolding getServerForTool_def by (rule getServerForTool_loop_cached)
next
  show "getServerForTool svc toolName =
       map_option fst
         (find (\<lambda>entry. case srv_tools (snd entry) of
                           None \<Rightarrow> False
                         | Some tools \<Rightarrow> toolName \<in> tool_name ` set tools) (servers svc))"
    unfolding getServerForTool_def by (rule getServerForTool_loop_find)
next
  assume "\<forall>entry \<in> set (servers svc). \<forall>tools. srv_tools (snd entry) = Some tools
          \<longrightarrow> toolName \<notin> tool_name ` set tools"
  then show "getServerForTool svc toolName = None"
    unfolding getServerForTool_def by (rule getServerForTool_loop_None)
next
  assume "listTools svc listedServer = (listedTools, svc'')" "toolName \<in> tool_name ` set listedTools"
  then show "\<exists>routed. getServerForTool svc'' toolName = Some routed"
    by (rule listTools_routes)
next
  assume r: "run_ops new_MCPService [] ops = (svc', listed)"
    and n: "toolName \<notin> tool_name ` set listed"
  have "cached_within (set []) (servers new_MCPService)"
    by (simp add: cached_within_def new_MCPService_def)
  from run_ops_cached [OF this r] have c: "cached_within (set listed) (servers svc')" .
  show "getServerForTool svc' toolName = None"
    unfolding getServerForTool_def
  proof (rule getServerForTool_loop_None, intro ballI allI impI)
    fix entry tools
    assume "entry \<in> set (servers svc')" "srv_tools (snd entry) = Some tools"
    with c have "set tools \<subseteq> set listed" by (fastforce simp: cached_within_def)
    with n show "toolName \<notin> tool_name ` set tools" by auto
  qed
qed

theorem getServerForTool_routes_through_cache_witness:
  "getServerForTool (fst (run_ops new_MCPService [] connected_only)) ''read_file'' = None
   \<and> callTool (fst (run_ops new_MCPService [] connected_only)) ''filesystem'' ''read_file'' ''{}''
       = Inr ''contents''
   \<and> ''read_file'' \<in> tool_name ` set (fst (listTools (fst (run_ops new_MCPService [] connected_only))
                                            ''filesystem''))
   \<and> (\<exists>routed. getServerForTool (snd (listTools (fst (run_ops new_MCPService [] connected_only))
                                          ''filesystem'')) ''read_file'' = Some routed)
   \<and> getServerForTool (fst (run_ops new_MCPService [] connected_listed)) ''read_file''
       = Some ''filesystem''
   \<and> (\<exists>server tools.
         (''filesystem'', server) \<in> set (servers (fst (run_ops new_MCPService [] connected_listed)))
         \<and> srv_tools server = Some tools \<and> ''read_file'' \<in> tool_name ` set tools)"
proof -
  let ?connected = "fst (run_ops new_MCPService [] connected_only)"
  let ?listed = "fst (run_ops new_MCPService [] connected_listed)"
  have r1: "run_ops new_MCPService [] connected_only = (?connected, [])"
    by (simp add: mcp_eval)
  have n1: "''read_file'' \<notin> tool_name ` set ([] :: mcp_tool list)" by simp
  have l: "listTools ?connected ''filesystem''
             = (fst (listTools ?connected ''filesystem''), snd (listTools ?connected ''filesystem''))"
    by simp
  have m: "''read_file'' \<in> tool_name ` set (fst (listTools ?connected ''filesystem''))"
    by (simp add: mcp_eval)
  have g2: "getServerForTool ?listed ''read_file'' = Some ''filesystem''"
    by (simp add: mcp_eval)
  have c: "callTool ?connected ''filesystem'' ''read_file'' ''{}'' = Inr ''contents''"
    by (simp add: mcp_eval)
  note t1 = getServerForTool_routes_through_cache
    [where svc = ?listed and toolName = "''read_file''" and serverName = "''filesystem''"
       and ops = connected_only and svc' = ?connected and listed = "[]"]
  note t2 = getServerForTool_routes_through_cache
    [where svc = ?connected and toolName = "''read_file''" and listedServer = "''filesystem''"
       and listedTools = "fst (listTools ?connected ''filesystem'')"
       and svc'' = "snd (listTools ?connected ''filesystem'')"]
  from t2 l m have e: "\<exists>routed. getServerForTool (snd (listTools ?connected ''filesystem''))
                          ''read_file'' = Some routed"
    by blast
  from t1 r1 n1 g2 c m e show ?thesis by blast
qed

section \<open>Roles of persisted messages\<close>

lemma mapMessageRole_values: "mapMessageRole m \<in> {''USER'', ''ASSISTANT'', ''TOOL''}"
  by (cases m) simp_all

lemma mapMessageRole_fallback:
  "\<not> is_AIMessage m \<Longrightarrow> \<not> is_ToolMessage m \<Longrightarrow> mapMessageRole m = ''USER''"
  by (cases m) simp_all

lemma role_stamp: "role (stamp t d) = role d"
  by (simp add: stamp_def)

lemma role_messageData_values:
  "role (stamp t (messageData stringify cid m)) \<in> {''USER'', ''ASSISTANT'', ''TOOL''}"
  using mapMessageRole_values [of m] by (simp add: role_stamp messageData_def)

lemma saveMessages_table:
  "saveMessages stringify store cid ms = Inr store'
     \<Longrightarrow> message_table store' =
           message_table store @ map (stamp (now store)) (map (messageData stringify cid) ms)
         \<and> fault store = None \<and> fault store' = None"
  by (auto simp: saveMessages_def createMany_def split: option.splits)

text \<open>
  C9. Every row \<open>saveMessages\<close> writes carries the role \<open>mapMessageRole\<close> gives its
  message, in the order of the messages; that role is one of \<open>USER\<close>, \<open>ASSISTANT\<close>,
  \<open>TOOL\<close>, and it is \<open>USER\<close> for every message that is neither an \<open>AIMessage\<close> nor a
  \<open>ToolMessage\<close>, a message of an unknown class included.
\<close>

theorem saveMessages_roles:
  assumes "saveMessages stringify store cid ms = Inr store'"
  shows "\<exists>new. message_table store' = message_table store @ new
           \<and> map role new = map mapMessageRole ms
           \<and> (\<forall>r \<in> set new. role r \<in> {''USER'', ''ASSISTANT'', ''TOOL''})
           \<and> (\<forall>i < length ms. \<not> is_AIMessage (ms ! i) \<and> \<not> is_ToolMessage (ms ! i)
                 \<longrightarrow> role (new ! i) = ''USER'')"
proof -
  let ?new = "map (stamp (now store)) (map (messageData stringify cid) ms)"
  have t: "message_table store' = message_table store @ ?new"
    using saveMessages_table [OF assms] by simp
  have r: "map role ?new = map mapMessageRole ms"
    by (simp add: role_stamp messageData_def)
  have v: "\<forall>r \<in> set ?new. role r \<in> {''USER'', ''ASSISTANT'', ''TOOL''}"
    using role_messageData_values by auto
  have f: "\<forall>i < length ms. \<not> is_AIMessage (ms ! i) \<and> \<not> is_ToolMessage (ms ! i)
                 \<longrightarrow> role (?new ! i) = ''USER''"
    by (simp add: role_stamp messageData_def mapMessageRole_fallback)
  from t r v f show ?thesis by blast
qed

theorem saveMessages_roles_witness:
  "(\<exists>store'. saveMessages (\<lambda>j::unit. ''null'') example_store ''c''
       [OtherMessage (Text ''be brief''), AIMessage (Text ''ok'') None] = Inr store'
     \<and> map role (drop 4 (message_table store')) = [''USER'', ''ASSISTANT''])"
proof -
  let ?ms = "[OtherMessage (Text ''be brief''), AIMessage (Text ''ok'') None] :: unit base_message list"
  obtain store' where s: "saveMessages (\<lambda>j::unit. ''null'') example_store ''c'' ?ms = Inr store'"
    by (simp add: saveMessages_def createMany_def example_store_def)
  from saveMessages_roles [OF s] obtain new where
    "message_table store' = message_table example_store @ new" "map role new = map mapMessageRole ?ms"
    by blast
  then have "map role (drop 4 (message_table store')) = [''USER'', ''ASSISTANT'']"
    by (simp add: example_store_def example_rows_def)
  with s show ?thesis by (intro exI [of _ store'] conjI)
qed

section \<open>Loading the history\<close>

lemma findMany_Inl: "findMany store cid lim = Inl e \<longleftrightarrow> fault store = Some e"
  by (auto simp: findMany_def split: option.splits)

text \<open>
  C8. \<open>getConversationMessages\<close> returns a list in every case. When the query of the
  store fails it returns the empty list, which is what it returns for a store without
  messages, and the state the graph is started with then holds the new user message alone.
\<close>

theorem getConversationMessages_swallows_failure:
  assumes "findMany store (conv_id conversation) lim = Inl e"
  shows "(getConversationMessages store (conv_id conversation) lim :: 'j base_message list) = []
         \<and> (getConversationMessages store (conv_id conversation) lim :: 'j base_message list)
             = getConversationMessages (store\<lparr>message_table := [], fault := None\<rparr>)
                 (conv_id conversation) lim
         \<and> messages (initialState store cwd conversation userInput :: 'j agent_state)
             = [HumanMessage (Text userInput)]"
proof -
  from assms have f: "fault store = Some e" by (simp add: findMany_Inl)
  then have "findMany store (conv_id conversation) 10 = Inl e" by (simp add: findMany_Inl)
  then show ?thesis using assms
    by (simp add: getConversationMessages_def initialState_def findMany_def order_by_desc_def)
qed

theorem getConversationMessages_swallows_failure_witness:
  "findMany broken_store (conv_id example_conversation) 20 = Inl ''connection refused''
   \<and> (getConversationMessages broken_store ''c'' 20 :: unit base_message list) = []
   \<and> messages (initialState broken_store ''/home'' example_conversation ''hi'' :: unit agent_state)
       = [HumanMessage (Text ''hi'')]"
proof -
  have h: "findMany broken_store (conv_id example_conversation) 20 = Inl ''connection refused''"
    by (simp add: findMany_def broken_store_def)
  from getConversationMessages_swallows_failure [OF h, of "''/home''" "''hi''", where ?'j = unit] h
  show ?thesis by (simp add: example_conversation_def)
qed

subsection \<open>The recent window\<close>

lemma sorted_split:
  assumes "sorted (map k S)"
  shows "sorted (map k (drop n S)) \<and> (\<forall>a \<in> set (take n S). \<forall>b \<in> set (drop n S). k a \<le> k b)"
proof -
  have "map k S = map k (take n S) @ map k (drop n S)"
    by (simp flip: map_append)
  with assms have "sorted (map k (take n S) @ map k (drop n S))" by simp
  then show ?thesis by (auto simp: sorted_append)
qed

lemma newest_first_reversed:
  "rev (take lim (order_by_desc k rs)) = drop (length rs - lim) (sort_key k rs)"
  by (simp add: order_by_desc_def rev_take)

lemma getConversationMessages_rows:
  "fault store = None \<Longrightarrow>
   getConversationMessages store cid lim =
     map row_message (drop (length (filter (\<lambda>r. conversationId r = cid) (message_table store)) - lim)
       (sort_key createdAt (filter (\<lambda>r. conversationId r = cid) (message_table store))))"
  by (simp add: getConversationMessages_def findMany_def newest_first_reversed)

lemma getConversationMessages_fault:
  "fault store = Some e \<Longrightarrow> getConversationMessages store cid lim = []"
  by (simp add: getConversationMessages_def findMany_def)

lemma length_getConversationMessages: "length (getConversationMessages store cid lim) \<le> lim"
  by (cases "fault store") (auto simp: getConversationMessages_rows getConversationMessages_fault)

text \<open>
  C4. \<open>getConversationMessages\<close> returns the messages of at most \<open>lim\<close> rows of the
  conversation, oldest first by creation time; no row of the conversation left out is newer
  than a row returned, and when the store answers, the rows returned are \<open>lim\<close> of the
  conversation's rows, or all of them when there are fewer. The state the entry point
  starts the graph with holds the window of limit 10 followed by the new user message, at
  most 11 messages.
\<close>

theorem getConversationMessages_recent_window:
  "(\<exists>rows older.
      (getConversationMessages store cid lim :: 'j base_message list) = map row_message rows
      \<and> length rows \<le> lim
      \<and> sorted (map createdAt rows)
      \<and> set rows \<subseteq> {r \<in> set (message_table store). conversationId r = cid}
      \<and> (\<forall>a \<in> set older. \<forall>b \<in> set rows. createdAt a \<le> createdAt b)
      \<and> (fault store = None \<longrightarrow>
            mset older + mset rows = mset (filter (\<lambda>r. conversationId r = cid) (message_table store))
            \<and> length rows = min lim (length (filter (\<lambda>r. conversationId r = cid) (message_table store)))))
   \<and> messages (initialState store cwd conversation userInput :: 'j agent_state)
       = getConversationMessages store (conv_id conversation) 10 @ [HumanMessage (Text userInput)]
   \<and> length (messages (initialState store cwd conversation userInput :: 'j agent_state)) \<le> 11"
proof (intro conjI)
  let ?conv = "filter (\<lambda>r. conversationId r = cid) (message_table store)"
  let ?S = "sort_key createdAt ?conv"
  let ?n = "length ?conv - lim"
  show "\<exists>rows older.
      (getConversationMessages store cid lim :: 'j base_message list) = map row_message rows
      \<and> length rows \<le> lim
      \<and> sorted (map createdAt rows)
      \<and> set rows \<subseteq> {r \<in> set (message_table store). conversationId r = cid}
      \<and> (\<forall>a \<in> set older. \<forall>b \<in> set rows. createdAt a \<le> createdAt b)
      \<and> (fault store = None \<longrightarrow>
            mset older + mset rows = mset ?conv \<and> length rows = min lim (length ?conv))"
  proof (cases "fault store")
    case None
    have s: "sorted (map createdAt (drop ?n ?S))"
      and o: "\<forall>a \<in> set (take ?n ?S). \<forall>b \<in> set (drop ?n ?S). createdAt a \<le> createdAt b"
      using sorted_split [of createdAt ?S ?n] by simp_all
    have m: "mset (take ?n ?S) + mset (drop ?n ?S) = mset ?conv"
      by (simp flip: mset_append)
    have l: "length (drop ?n ?S) = min lim (length ?conv)" by simp
    have sub: "set (drop ?n ?S) \<subseteq> {r \<in> set (message_table store). conversationId r = cid}"
      using set_drop_subset [of ?n ?S] by auto
    have g: "(getConversationMessages store cid lim :: 'j base_message list)
               = map row_message (drop ?n ?S)"
      using None by (rule getConversationMessages_rows)
    from g s o m l sub show ?thesis
      by (intro exI [of _ "drop ?n ?S"] exI [of _ "take ?n ?S"]) simp
  next
    case (Some e)
    then have "(getConversationMessages store cid lim :: 'j base_message list) = map row_message []"
      by (simp add: getConversationMessages_fault)
    with Some show ?thesis
      by (intro exI [of _ "[]"]) simp
  qed
next
  show "messages (initialState store cwd conversation userInput :: 'j agent_state)
       = getConversationMessages store (conv_id conversation) 10 @ [HumanMessage (Text userInput)]"
    by (simp add: initialState_def)
next
  show "length (messages (initialState store cwd conversation userInput :: 'j agent_state)) \<le> 11"
    using length_getConversationMessages [of store "conv_id conversation" 10, where ?'a = 'j]
    by (simp add: initialState_def)
qed

lemma example_window:
  "(getConversationMessages example_store ''c'' 2 :: unit base_message list)
     = [AIMessage (Text ''second'') (Some []), HumanMessage (Text ''third'')]"
  by (simp add: getConversationMessages_def findMany_def order_by_desc_def example_store_def
      example_rows_def row_message_def)

theorem getConversationMessages_recent_window_witness:
  "fault example_store = None
   \<and> (getConversationMessages example_store ''c'' 2 :: unit base_message list)
       = [AIMessage (Text ''second'') (Some []), HumanMessage (Text ''third'')]
   \<and> (\<exists>rows older.
        (getConversationMessages example_store ''c'' 2 :: unit base_message list) = map row_message rows
        \<and> length rows = 2 \<and> sorted (map createdAt rows)
        \<and> mset older + mset rows
            = mset (filter (\<lambda>r. conversationId r = ''c'') (message_table example_store)))
   \<and> messages (initialState example_store ''/home'' example_conversation ''hi'' :: unit agent_state)
       = [HumanMessage (Text ''first''), AIMessage (Text ''second'') (Some []),
          HumanMessage (Text ''third''), HumanMessage (Text ''hi'')]"
proof -
  have f: "fault example_store = None" by (simp add: example_store_def)
  have n: "length (filter (\<lambda>r. conversationId r = ''c'') (message_table example_store)) = 3"
    by (simp add: example_store_def example_rows_def)
  have h: "(getConversationMessages example_store ''c'' 10 :: unit base_message list)
     = [HumanMessage (Text ''first''), AIMessage (Text ''second'') (Some []), HumanMessage (Text ''third'')]"
    by (simp add: getConversationMessages_def findMany_def order_by_desc_def example_store_def
      example_rows_def row_message_def)
  note t = getConversationMessages_recent_window
    [of example_store "''c''" 2 "''/home''" example_conversation "''hi''", where ?'j = unit]
  from t f n obtain rows older where
    "(getConversationMessages example_store ''c'' 2 :: unit base_message list) = map row_message rows"
    "length rows = 2" "sorted (map createdAt rows)"
    "mset older + mset rows
            = mset (filter (\<lambda>r. conversationId r = ''c'') (message_table example_store))"
    by auto
  then have e: "\<exists>rows older.
        (getConversationMessages example_store ''c'' 2 :: unit base_message list) = map row_message rows
        \<and> length rows = 2 \<and> sorted (map createdAt rows)
        \<and> mset older + mset rows
            = mset (filter (\<lambda>r. conversationId r = ''c'') (message_table example_store))"
    by blast
  from t h have i: "messages (initialState example_store ''/home'' example_conversation ''hi'' :: unit agent_state)
       = [HumanMessage (Text ''first''), AIMessage (Text ''second'') (Some []),
          HumanMessage (Text ''third''), HumanMessage (Text ''hi'')]"
    by (simp add: example_conversation_def)
  from f example_window e i show ?thesis by (intro conjI)
qed

section \<open>Commands of the shell\<close>

text \<open>
  C5. On an input that is, in any letter case, \<open>/exit\<close>, \<open>/help\<close> or \<open>/tools\<close>,
  \<open>processUserInput\<close> returns at once: the graph is not invoked, the store is not
  touched, the result does not depend on the graph, and it is \<open>Exit\<close> only for
  \<open>/exit\<close>.
\<close>

theorem commands_short_circuit:
  assumes "toLowerCase userInput \<in> {''/exit'', ''/help'', ''/tools''}"
  shows "\<exists>r w'. processUserInput graph cwd w userInput conversation availableTools = Some (Inr r, w')
           \<and> graph_invocations w' = graph_invocations w
           \<and> db w' = db w
           \<and> (r = Exit \<longleftrightarrow> toLowerCase userInput = ''/exit'')
           \<and> processUserInput graph' cwd w userInput conversation availableTools = Some (Inr r, w')"
  using assms by (auto simp: processUserInput_def)

theorem commands_short_circuit_witness:
  "toLowerCase ''/Tools'' \<in> {''/exit'', ''/help'', ''/tools''}
   \<and> processUserInput (\<lambda>st store. None) ''/home'' example_world ''/Tools''
         example_conversation []
       = Some (Inr Continue, example_world\<lparr>cli := [DisplayTools []]\<rparr>)"
proof -
  have l: "toLowerCase ''/Tools'' = ''/tools''" by code_simp
  then have h: "toLowerCase ''/Tools'' \<in> {''/exit'', ''/help'', ''/tools''}" by simp
  from commands_short_circuit [OF h, of "\<lambda>st store. None" "''/home''" example_world
      example_conversation "[]" "\<lambda>st store. None"]
  show ?thesis using h by (simp add: processUserInput_def l example_world_def)
qed

section \<open>Properties of the orchestration loop\<close>

lemma row_data_stamp: "row_data (stamp t d) = d"
  by (simp add: row_data_def stamp_def)

lemma append_messages_ok:
  "fault (t_store t) = None \<Longrightarrow>
   append_messages stringify cid next pending ms t =
     Inr (t\<lparr>t_state := next, t_history := t_history t @ ms, t_produced := t_produced t @ ms,
            t_pending := pending,
            t_store := (t_store t)\<lparr>message_table := message_table (t_store t) @
                           map (stamp (now (t_store t))) (map (messageData stringify cid) ms),
                         now := Suc (now (t_store t))\<rparr>\<rparr>)"
  by (simp add: append_messages_def saveMessages_def createMany_def)

lemma append_messages_Inr:
  assumes "append_messages stringify cid next pending ms t = Inr t'"
  shows "t_state t' = next \<and> t_pending t' = pending \<and> t_generations t' = t_generations t
         \<and> t_history t' = t_history t @ ms \<and> t_produced t' = t_produced t @ ms
         \<and> fault (t_store t) = None \<and> fault (t_store t') = None
         \<and> (\<exists>rows. message_table (t_store t') = message_table (t_store t) @ rows
                \<and> map row_data rows = map (messageData stringify cid) ms)"
proof -
  from assms obtain store' where s: "saveMessages stringify (t_store t) cid ms = Inr store'"
    and t': "t' = t\<lparr>t_state := next, t_history := t_history t @ ms,
                    t_produced := t_produced t @ ms, t_pending := pending, t_store := store'\<rparr>"
    by (auto simp: append_messages_def split: sum.splits)
  from saveMessages_table [OF s] have
    "message_table store' = message_table (t_store t) @
        map (stamp (now (t_store t))) (map (messageData stringify cid) ms)"
    and f: "fault (t_store t) = None" "fault store' = None"
    by simp_all
  moreover have "map row_data (map (stamp (now (t_store t))) (map (messageData stringify cid) ms))
                  = map (messageData stringify cid) ms"
    by (simp add: row_data_stamp comp_def)
  ultimately show ?thesis using t' by simp
qed

text \<open>
  What one step adds: the same messages to the history, to the turn's output and, as rows
  in the same order, to the store.
\<close>

lemma step_adds:
  assumes "step generate execute stringify capabilities cid t = Inr t'"
  shows "\<exists>new rows. t_history t' = t_history t @ new \<and> t_produced t' = t_produced t @ new
           \<and> message_table (t_store t') = message_table (t_store t) @ rows
           \<and> map row_data rows = map (messageData stringify cid) new"
proof (cases "t_state t")
  case GENERATING
  with assms obtain nxt pending ms t0 where
    a: "append_messages stringify cid nxt pending ms t0 = Inr t'"
    and t0: "t_history t0 = t_history t" "t_produced t0 = t_produced t" "t_store t0 = t_store t"
    by (auto simp: step_def split: sum.splits outcome.splits)
  from append_messages_Inr [OF a] t0 show ?thesis by auto
next
  case AWAITING_TOOLS
  with assms have
    a: "append_messages stringify cid GENERATING [] (map (tool_message execute) (t_pending t)) t = Inr t'"
    by (simp add: step_def)
  from append_messages_Inr [OF a] show ?thesis by auto
next
  case DONE
  with assms have "t' = t" by (simp add: step_def)
  then show ?thesis by simp
qed

lemma steps_add:
  "steps generate execute stringify capabilities cid k t = Inr t'
     \<Longrightarrow> \<exists>new rows. t_history t' = t_history t @ new \<and> t_produced t' = t_produced t @ new
           \<and> message_table (t_store t') = message_table (t_store t) @ rows
           \<and> map row_data rows = map (messageData stringify cid) new"
proof (induction k arbitrary: t)
  case 0
  then show ?case by simp
next
  case (Suc k)
  then obtain t1 where s1: "step generate execute stringify capabilities cid t = Inr t1"
    and sk: "steps generate execute stringify capabilities cid k t1 = Inr t'"
    by (auto split: sum.splits)
  from step_adds [OF s1] obtain new1 rows1 where
    1: "t_history t1 = t_history t @ new1" "t_produced t1 = t_produced t @ new1"
       "message_table (t_store t1) = message_table (t_store t) @ rows1"
       "map row_data rows1 = map (messageData stringify cid) new1"
    by blast
  from Suc.IH [OF sk] obtain new2 rows2 where
    2: "t_history t' = t_history t1 @ new2" "t_produced t' = t_produced t1 @ new2"
       "message_table (t_store t') = message_table (t_store t1) @ rows2"
       "map row_data rows2 = map (messageData stringify cid) new2"
    by blast
  from 1 2 show ?case
    by (intro exI [of _ "new1 @ new2"] exI [of _ "rows1 @ rows2"]) simp
qed

lemma steps_split:
  "steps generate execute stringify capabilities cid (k + j) t = Inr t''
     \<Longrightarrow> \<exists>t'. steps generate execute stringify capabilities cid k t = Inr t'
            \<and> steps generate execute stringify capabilities cid j t' = Inr t''"
  by (induction k arbitrary: t) (auto split: sum.splits)

lemma steps_DONE:
  "t_state t = DONE \<Longrightarrow> steps generate execute stringify capabilities cid k t = Inr t"
  by (induction k) (simp_all add: step_def)

lemma run_from_steps:
  "steps generate execute stringify capabilities cid k t = Inr t' \<Longrightarrow> t_state t' \<noteq> DONE
     \<Longrightarrow> run_from generate execute stringify capabilities cid (k + fuel) t
         = run_from generate execute stringify capabilities cid fuel t'"
proof (induction k arbitrary: t)
  case 0
  then show ?case by simp
next
  case (Suc k)
  have nd: "t_state t \<noteq> DONE"
  proof
    assume d: "t_state t = DONE"
    then have "steps generate execute stringify capabilities cid (Suc k) t = Inr t"
      by (rule steps_DONE)
    with Suc.prems(1) have "t' = t" by (simp del: steps.simps)
    with d Suc.prems(2) show False by simp
  qed
  from Suc.prems obtain t1 where s1: "step generate execute stringify capabilities cid t = Inr t1"
    and sk: "steps generate execute stringify capabilities cid k t1 = Inr t'"
    by (auto split: sum.splits)
  from Suc.IH [OF sk Suc.prems(2)] nd s1 show ?case by simp
qed

lemma steps_from_start:
  assumes "steps generate execute stringify capabilities cid k (start_turn history store) = Inr t"
  shows "t_history t = history @ t_produced t
         \<and> map row_data (message_table (t_store t))
             = map row_data (message_table store) @ map (messageData stringify cid) (t_produced t)
         \<and> prefix (message_table store) (message_table (t_store t))"
proof -
  from steps_add [OF assms] obtain new rows where
    n: "t_history t = t_history (start_turn history store) @ new"
       "t_produced t = t_produced (start_turn history store) @ new"
       "message_table (t_store t) = message_table (t_store (start_turn history store)) @ rows"
       "map row_data rows = map (messageData stringify cid) new"
    by blast
  then show ?thesis by (simp add: start_turn_def)
qed

text \<open>
  C6. After any number of completed steps of a turn, the store holds, after the rows it
  held when the turn began, exactly the rows of the messages the turn has produced so
  far, in the order they were produced: the messages of a step are in the store when the
  step ends. Whatever the turn goes on to do only extends both the messages produced and
  the table, so a turn that stops at any step leaves a prefix of its messages recorded.
\<close>

theorem steps_persist_before_next:
  assumes "steps generate execute stringify capabilities cid k (start_turn history store) = Inr t"
  shows "t_history t = history @ t_produced t
         \<and> map row_data (message_table (t_store t))
             = map row_data (message_table store) @ map (messageData stringify cid) (t_produced t)
         \<and> prefix (message_table store) (message_table (t_store t))
         \<and> (\<forall>j t'. steps generate execute stringify capabilities cid (k + j) (start_turn history store)
                     = Inr t'
               \<longrightarrow> prefix (t_produced t) (t_produced t')
                 \<and> prefix (message_table (t_store t)) (message_table (t_store t')))"
proof -
  have "prefix (t_produced t) (t_produced t')
          \<and> prefix (message_table (t_store t)) (message_table (t_store t'))"
    if l: "steps generate execute stringify capabilities cid (k + j) (start_turn history store) = Inr t'"
    for j t'
  proof -
    from steps_split [OF l] assms
    have "steps generate execute stringify capabilities cid j t = Inr t'" by simp
    from steps_add [OF this] show ?thesis by auto
  qed
  with steps_from_start [OF assms] show ?thesis by blast
qed

lemma request_round:
  assumes "t_state t = GENERATING"
    and "generate (t_history t) capabilities = Inr (CapabilityRequest calls)"
    and "fault (t_store t) = None"
  shows "\<exists>t1 t2.
           step generate execute stringify capabilities cid t = Inr t1
           \<and> t_state t1 = AWAITING_TOOLS
           \<and> t_produced t1 = t_produced t @ [request_message calls]
           \<and> step generate execute stringify capabilities cid t1 = Inr t2
           \<and> t_state t2 = GENERATING
           \<and> t_produced t2 = t_produced t @ request_message calls # map (tool_message execute) calls
           \<and> t_history t2 = t_history t @ request_message calls # map (tool_message execute) calls
           \<and> t_generations t2 = Suc (t_generations t)"
proof -
  let ?a = "request_message calls"
  let ?ts = "map (tool_message execute) calls"
  let ?g = "t\<lparr>t_generations := Suc (t_generations t)\<rparr>"
  have fg: "fault (t_store ?g) = None" using assms(3) by simp
  obtain t1 where a1: "append_messages stringify cid AWAITING_TOOLS calls [?a] ?g = Inr t1"
    using append_messages_ok [OF fg] by blast
  have s1: "step generate execute stringify capabilities cid t = Inr t1"
    using assms(1,2) a1 by (simp add: step_def)
  note p1 = append_messages_Inr [OF a1]
  then have f1: "fault (t_store t1) = None" and st1: "t_state t1 = AWAITING_TOOLS"
    and pe1: "t_pending t1 = calls" by simp_all
  obtain t2 where a2: "append_messages stringify cid GENERATING [] ?ts t1 = Inr t2"
    using append_messages_ok [OF f1] by blast
  have s2: "step generate execute stringify capabilities cid t1 = Inr t2"
    using st1 pe1 a2 by (simp add: step_def)
  note p2 = append_messages_Inr [OF a2]
  from s1 st1 s2 p1 p2 show ?thesis
    by (intro exI [of _ t1] exI [of _ t2]) simp
qed

lemma tool_messages_linked:
  "list_all is_ToolMessage (map (tool_message execute) calls)
   \<and> map tool_call_id_of (map (tool_message execute) calls) = map (\<lambda>c. Some (tc_id c)) calls"
  by (induction calls) (simp_all add: tool_message_def)

text \<open>
  C1. When the generator answers a history with a request for the calls \<open>calls\<close> (and
  the store takes the appends), the next two steps of the turn produce exactly
  \<open>1 + length calls\<close> new messages: one assistant message carrying the calls, then one
  tool message per call, in the order of the calls, each with the id of its call. The
  turn is then back in \<open>GENERATING\<close> with one generation counted, and goes on from
  there.
\<close>

theorem capability_request_round:
  assumes "t_state t = GENERATING"
    and "generate (t_history t) capabilities = Inr (CapabilityRequest calls)"
    and "fault (t_store t) = None"
  shows "\<exists>t1 t2 assistant tools.
           step generate execute stringify capabilities cid t = Inr t1
           \<and> t_state t1 = AWAITING_TOOLS
           \<and> t_produced t1 = t_produced t @ [assistant]
           \<and> step generate execute stringify capabilities cid t1 = Inr t2
           \<and> t_state t2 = GENERATING
           \<and> t_produced t2 = t_produced t @ assistant # tools
           \<and> t_history t2 = t_history t @ assistant # tools
           \<and> is_AIMessage assistant \<and> tool_calls_of assistant = Some calls
           \<and> length tools = length calls
           \<and> list_all is_ToolMessage tools
           \<and> map tool_call_id_of tools = map (\<lambda>c. Some (tc_id c)) calls
           \<and> t_generations t2 = Suc (t_generations t)
           \<and> run_from generate execute stringify capabilities cid (Suc (Suc fuel)) t
               = run_from generate execute stringify capabilities cid fuel t2"
proof -
  let ?a = "request_message calls"
  let ?ts = "map (tool_message execute) calls"
  from request_round [where generate = generate and execute = execute and stringify = stringify
      and cid = cid, OF assms] obtain t1 t2 where
    s: "step generate execute stringify capabilities cid t = Inr t1"
       "t_state t1 = AWAITING_TOOLS"
       "t_produced t1 = t_produced t @ [?a]"
       "step generate execute stringify capabilities cid t1 = Inr t2"
       "t_state t2 = GENERATING"
       "t_produced t2 = t_produced t @ ?a # ?ts"
       "t_history t2 = t_history t @ ?a # ?ts"
       "t_generations t2 = Suc (t_generations t)"
    by blast
  have r: "run_from generate execute stringify capabilities cid (Suc (Suc fuel)) t
               = run_from generate execute stringify capabilities cid fuel t2"
    using assms(1) s(1,2,4) by simp
  have l: "is_AIMessage ?a \<and> tool_calls_of ?a = Some calls" by (simp add: request_message_def)
  from s r l tool_messages_linked [of execute calls] show ?thesis
    by (intro exI [of _ t1] exI [of _ t2] exI [of _ ?a] exI [of _ ?ts]) simp
qed



text \<open>
  C3. When the generator answers the history with a final answer (and the store takes the
  append), the turn ends in \<open>DONE\<close> with exactly one new message, an assistant message
  with the text of the answer, after one generation; the gateway plays no part in the
  result.
\<close>

theorem final_answer_turn:
  assumes "generate history capabilities = Inr (FinalAnswer text)"
    and "fault store = None"
  shows "\<exists>t. runTurn generate execute stringify cid store (Suc fuel) history capabilities
                = Some (TurnDone t)
           \<and> runTurn generate execute' stringify cid store (Suc fuel) history capabilities
                = Some (TurnDone t)
           \<and> t_state t = DONE
           \<and> t_produced t = [AIMessage (Text text) None]
           \<and> mapMessageRole (AIMessage (Text text) None :: message) = ''ASSISTANT''
           \<and> t_history t = history @ [AIMessage (Text text) None]
           \<and> t_generations t = 1
           \<and> map row_data (message_table (t_store t))
               = map row_data (message_table store)
                 @ [messageData stringify cid (AIMessage (Text text) None)]"
proof -
  let ?t0 = "start_turn history store"
  let ?g = "?t0\<lparr>t_generations := Suc (t_generations ?t0)\<rparr>"
  have fg: "fault (t_store ?g) = None" using assms(2) by (simp add: start_turn_def)
  obtain t where a: "append_messages stringify cid DONE [] [answer_message text] ?g = Inr t"
    using append_messages_ok [OF fg] by blast
  have s: "step generate ex stringify capabilities cid ?t0 = Inr t" for ex
    using assms(1) a by (simp add: step_def start_turn_def)
  note p = append_messages_Inr [OF a]
  then have d: "t_state t = DONE" by simp
  have r: "runTurn generate ex stringify cid store (Suc fuel) history capabilities
             = Some (TurnDone t)" for ex
  proof -
    have "run_from generate ex stringify capabilities cid (Suc fuel) ?t0
            = run_from generate ex stringify capabilities cid fuel t"
      using s [of ex] by (simp add: start_turn_def)
    also have "\<dots> = Some (TurnDone t)" using d by (cases fuel) simp_all
    finally show ?thesis by (simp add: runTurn_def)
  qed
  from p obtain rows where rows: "message_table (t_store t) = message_table store @ rows"
      "map row_data rows = [messageData stringify cid (answer_message text)]"
    by (auto simp: start_turn_def)
  from r [of execute] r [of execute'] d p rows show ?thesis
    by (intro exI [of _ t]) (simp add: start_turn_def answer_message_def)
qed

text \<open>
  C7. When the generator fails after \<open>k\<close> completed steps of the turn started by a
  user input, the turn ends with that failure: \<open>runTurn\<close> reports it together with the
  turn as the last completed step left it, whose store holds the rows it held before the
  turn followed by the rows of the messages produced so far; \<open>processUserInput\<close> raises
  the failure to \<open>main\<close>, which shows it and carries on.
\<close>

theorem generator_failure_surfaces:
  fixes w :: "call_payload world"
  assumes "toLowerCase userInput \<notin> {''/exit'', ''/help'', ''/tools''}"
    and "steps generate execute stringify capabilities (conv_id conversation) k
           (start_turn (messages (initialState (db w) cwd conversation userInput)) (db w)) = Inr t"
    and "t_state t = GENERATING"
    and "generate (t_history t) capabilities = Inl e"
  shows "runTurn generate execute stringify (conv_id conversation) (db w) (Suc (k + fuel))
           (messages (initialState (db w) cwd conversation userInput)) capabilities
           = Some (TurnFailed e t)
         \<and> map row_data (message_table (t_store t))
             = map row_data (message_table (db w))
               @ map (messageData stringify (conv_id conversation)) (t_produced t)
         \<and> prefix (message_table (db w)) (message_table (t_store t))
         \<and> processUserInput (turn_graph generate execute stringify capabilities (Suc (k + fuel)))
             cwd w userInput conversation availableTools
             = Some (Inl e, w\<lparr>cli := cli w @ [DisplayThinking],
                               graph_invocations := graph_invocations w
                                 @ [initialState (db w) cwd conversation userInput],
                               db := t_store t\<rparr>)
         \<and> main_loop_body (turn_graph generate execute stringify capabilities (Suc (k + fuel)))
             cwd w userInput conversation availableTools
             = Some (False, w\<lparr>cli := cli w @ [DisplayThinking, StopThinking,
                                        DisplayError (''An error occurred: '' @ e)],
                               graph_invocations := graph_invocations w
                                 @ [initialState (db w) cwd conversation userInput],
                               db := t_store t\<rparr>)"
proof -
  let ?st = "initialState (db w) cwd conversation userInput :: call_payload agent_state"
  let ?t0 = "start_turn (messages ?st) (db w)"
  have nd: "t_state t \<noteq> DONE" using assms(3) by simp
  have "run_from generate execute stringify capabilities (conv_id conversation) (k + Suc fuel) ?t0
          = run_from generate execute stringify capabilities (conv_id conversation) (Suc fuel) t"
    using assms(2) nd by (rule run_from_steps)
  also have "\<dots> = Some (TurnFailed e t)"
    using assms(3,4) by (simp add: step_def)
  finally have r: "runTurn generate execute stringify (conv_id conversation) (db w) (Suc (k + fuel))
           (messages ?st) capabilities = Some (TurnFailed e t)"
    by (simp add: runTurn_def)
  have c: "as_conversationId ?st = conv_id conversation" by (simp add: initialState_def)
  have g: "turn_graph generate execute stringify capabilities (Suc (k + fuel)) ?st (db w)
             = Some (Inl e, t_store t)"
    unfolding turn_graph_def c r by simp
  have p: "processUserInput (turn_graph generate execute stringify capabilities (Suc (k + fuel)))
             cwd w userInput conversation availableTools
             = Some (Inl e, w\<lparr>cli := cli w @ [DisplayThinking],
                               graph_invocations := graph_invocations w @ [?st],
                               db := t_store t\<rparr>)"
    using assms(1) g by (simp add: processUserInput_def Let_def)
  have m: "main_loop_body (turn_graph generate execute stringify capabilities (Suc (k + fuel)))
             cwd w userInput conversation availableTools
             = Some (False, w\<lparr>cli := cli w @ [DisplayThinking, StopThinking,
                                        DisplayError (''An error occurred: '' @ e)],
                               graph_invocations := graph_invocations w @ [?st],
                               db := t_store t\<rparr>)"
    unfolding main_loop_body_def p by simp
  note s = steps_from_start [OF assms(2)]
  from r s p m show ?thesis by simp
qed

subsection \<open>The loop on the concrete instances\<close>

lemma example_history_eq:
  "example_history = [HumanMessage (Text ''first''), AIMessage (Text ''second'') (Some []),
                      HumanMessage (Text ''third''), HumanMessage (Text ''list files'')]"
  by (simp add: example_history_def initialState_def getConversationMessages_def findMany_def
      order_by_desc_def example_store_def example_rows_def row_message_def example_conversation_def)

lemma example_round:
  "\<exists>t2. steps example_generator (mcp_gateway example_service) example_stringify [] ''c''
           (Suc (Suc 0)) (start_turn example_history example_store) = Inr t2
         \<and> t_state t2 = GENERATING
         \<and> t_produced t2 = request_message [read_call, write_call]
             # map (tool_message (mcp_gateway example_service)) [read_call, write_call]
         \<and> t_history t2 = example_history @ t_produced t2"
proof -
  let ?t0 = "start_turn example_history example_store"
  have 1: "t_state ?t0 = GENERATING" by (simp add: start_turn_def)
  have 2: "example_generator (t_history ?t0) [] = Inr (CapabilityRequest [read_call, write_call])"
    by (simp add: start_turn_def example_generator_def example_history_eq)
  have 3: "fault (t_store ?t0) = None" by (simp add: start_turn_def example_store_def)
  from request_round [where generate = example_generator
      and execute = "mcp_gateway example_service" and stringify = example_stringify
      and cid = "''c''", OF 1 2 3]
  show ?thesis by (auto simp: start_turn_def)
qed

theorem steps_persist_before_next_witness:
  "\<exists>t. steps example_generator (mcp_gateway example_service) example_stringify [] ''c''
          (Suc (Suc 0)) (start_turn example_history example_store) = Inr t
       \<and> length (t_produced t) = 3
       \<and> map row_data (message_table (t_store t))
           = map row_data (message_table example_store)
             @ map (messageData example_stringify ''c'') (t_produced t)
       \<and> prefix (message_table example_store) (message_table (t_store t))"
proof -
  from example_round obtain t where
    s: "steps example_generator (mcp_gateway example_service) example_stringify [] ''c''
          (Suc (Suc 0)) (start_turn example_history example_store) = Inr t"
    and p: "t_produced t = request_message [read_call, write_call]
             # map (tool_message (mcp_gateway example_service)) [read_call, write_call]"
    by blast
  from p have "length (t_produced t) = 3" by simp
  with steps_persist_before_next [OF s] s show ?thesis by blast
qed

theorem capability_request_round_witness:
  "t_state (start_turn example_history example_store) = GENERATING
   \<and> example_generator (t_history (start_turn example_history example_store)) []
       = Inr (CapabilityRequest [read_call, write_call])
   \<and> fault (t_store (start_turn example_history example_store)) = None
   \<and> (\<exists>t1 t2 assistant tools.
         step example_generator (mcp_gateway example_service) example_stringify [] ''c''
           (start_turn example_history example_store) = Inr t1
         \<and> step example_generator (mcp_gateway example_service) example_stringify [] ''c'' t1 = Inr t2
         \<and> t_state t2 = GENERATING
         \<and> t_produced t2 = assistant # tools
         \<and> tool_calls_of assistant = Some [read_call, write_call]
         \<and> length tools = 2
         \<and> map tool_call_id_of tools = [Some ''call_1'', Some ''call_2'']
         \<and> t_generations t2 = 1)"
proof -
  let ?t0 = "start_turn example_history example_store"
  have 1: "t_state ?t0 = GENERATING" by (simp add: start_turn_def)
  have 2: "example_generator (t_history ?t0) [] = Inr (CapabilityRequest [read_call, write_call])"
    by (simp add: start_turn_def example_generator_def example_history_eq)
  have 3: "fault (t_store ?t0) = None" by (simp add: start_turn_def example_store_def)
  from capability_request_round [where generate = example_generator
      and execute = "mcp_gateway example_service" and stringify = example_stringify
      and cid = "''c''" and fuel = 0, OF 1 2 3]
  obtain t1 t2 assistant tools where
    "step example_generator (mcp_gateway example_service) example_stringify [] ''c'' ?t0 = Inr t1"
    "step example_generator (mcp_gateway example_service) example_stringify [] ''c'' t1 = Inr t2"
    "t_state t2 = GENERATING"
    "t_produced t2 = t_produced ?t0 @ assistant # tools"
    "tool_calls_of assistant = Some [read_call, write_call]"
    "length tools = length [read_call, write_call]"
    "map tool_call_id_of tools = map (\<lambda>c. Some (tc_id c)) [read_call, write_call]"
    "t_generations t2 = Suc (t_generations ?t0)"
    by blast
  then have "\<exists>t1 t2 assistant tools.
         step example_generator (mcp_gateway example_service) example_stringify [] ''c'' ?t0 = Inr t1
         \<and> step example_generator (mcp_gateway example_service) example_stringify [] ''c'' t1 = Inr t2
         \<and> t_state t2 = GENERATING
         \<and> t_produced t2 = assistant # tools
         \<and> tool_calls_of assistant = Some [read_call, write_call]
         \<and> length tools = 2
         \<and> map tool_call_id_of tools = [Some ''call_1'', Some ''call_2'']
         \<and> t_generations t2 = 1"
    by (intro exI [of _ t1] exI [of _ t2] exI [of _ assistant] exI [of _ tools])
       (simp add: start_turn_def read_call_def write_call_def)
  with 1 2 3 show ?thesis by (intro conjI)
qed


theorem final_answer_turn_witness:
  "example_generator [HumanMessage (Text ''hi'')] [] = Inr (FinalAnswer ''Hello!'')
   \<and> fault example_store = None
   \<and> (\<exists>t. runTurn example_generator (mcp_gateway example_service) example_stringify ''c''
             example_store (Suc 0) [HumanMessage (Text ''hi'')] [] = Some (TurnDone t)
          \<and> t_state t = DONE
          \<and> t_produced t = [AIMessage (Text ''Hello!'') None]
          \<and> t_generations t = 1)"
proof -
  have 1: "example_generator [HumanMessage (Text ''hi'')] [] = Inr (FinalAnswer ''Hello!'')"
    by (simp add: example_generator_def)
  have 2: "fault example_store = None" by (simp add: example_store_def)
  from final_answer_turn [where generate = example_generator
      and execute = "mcp_gateway example_service" and execute' = "mcp_gateway example_service"
      and stringify = example_stringify and cid = "''c''" and fuel = 0, OF 1 2]
  have "\<exists>t. runTurn example_generator (mcp_gateway example_service) example_stringify ''c''
             example_store (Suc 0) [HumanMessage (Text ''hi'')] [] = Some (TurnDone t)
          \<and> t_state t = DONE
          \<and> t_produced t = [AIMessage (Text ''Hello!'') None]
          \<and> t_generations t = 1"
    by blast
  with 1 2 show ?thesis by (intro conjI)
qed

theorem generator_failure_surfaces_witness:
  "toLowerCase ''list files'' \<notin> {''/exit'', ''/help'', ''/tools''}
   \<and> (\<exists>t. steps example_generator (mcp_gateway example_service) example_stringify []
             (conv_id example_conversation) (Suc (Suc 0))
             (start_turn (messages (initialState (db example_world) ''/home'' example_conversation
                ''list files'')) (db example_world)) = Inr t
          \<and> t_state t = GENERATING
          \<and> example_generator (t_history t) [] = Inl ''upstream error''
          \<and> length (t_produced t) = 3
          \<and> prefix (message_table (db example_world)) (message_table (t_store t))
          \<and> main_loop_body
               (turn_graph example_generator (mcp_gateway example_service) example_stringify []
                  (Suc (Suc (Suc 0))))
               ''/home'' example_world ''list files'' example_conversation []
              = Some (False,
                  example_world\<lparr>cli := [DisplayThinking, StopThinking,
                                         DisplayError ''An error occurred: upstream error''],
                    graph_invocations :=
                      [initialState example_store ''/home'' example_conversation ''list files''],
                    db := t_store t\<rparr>))"
proof -
  have l: "toLowerCase ''list files'' = ''list files''" by code_simp
  then have 1: "toLowerCase ''list files'' \<notin> {''/exit'', ''/help'', ''/tools''}" by simp
  have d: "db example_world = example_store"
    by (simp add: example_world_def)
  have h: "messages (initialState (db example_world) ''/home''
             example_conversation ''list files'') = example_history"
    by (simp add: d example_history_def)
  have c: "conv_id example_conversation = ''c''" by (simp add: example_conversation_def)
  from example_round obtain t where
    r: "steps example_generator (mcp_gateway example_service) example_stringify [] ''c''
          (Suc (Suc 0)) (start_turn example_history example_store) = Inr t"
    and 3: "t_state t = GENERATING"
    and p: "t_produced t = request_message [read_call, write_call]
             # map (tool_message (mcp_gateway example_service)) [read_call, write_call]"
    and hi: "t_history t = example_history @ t_produced t"
    by blast
  have 2: "steps example_generator (mcp_gateway example_service) example_stringify []
             (conv_id example_conversation) (Suc (Suc 0))
             (start_turn (messages (initialState (db example_world) ''/home'' example_conversation
                ''list files'')) (db example_world)) = Inr t"
    using r by (simp add: d c example_history_def del: steps.simps)
  have 4: "example_generator (t_history t) [] = Inl ''upstream error''"
    by (simp add: hi p example_history_eq example_generator_def)
  have n: "length (t_produced t) = 3" by (simp add: p)
  note g = generator_failure_surfaces [OF 1 2 3 4, of 0 "[]"]
  from g have pr: "prefix (message_table (db example_world))
                     (message_table (t_store t))"
    by blast
  from g have m: "main_loop_body
               (turn_graph example_generator (mcp_gateway example_service) example_stringify []
                  (Suc (Suc (Suc 0))))
               ''/home'' example_world ''list files'' example_conversation []
              = Some (False,
                  example_world\<lparr>cli := [DisplayThinking, StopThinking,
                                         DisplayError ''An error occurred: upstream error''],
                    graph_invocations :=
                      [initialState example_store ''/home'' example_conversation ''list files''],
                    db := t_store t\<rparr>)"
    by (simp add: example_world_def)
  from 2 3 4 n pr m have "\<exists>t. steps example_generator (mcp_gateway example_service) example_stringify []
             (conv_id example_conversation) (Suc (Suc 0))
             (start_turn (messages (initialState (db example_world) ''/home'' example_conversation
                ''list files'')) (db example_world)) = Inr t
          \<and> t_state t = GENERATING
          \<and> example_generator (t_history t) [] = Inl ''upstream error''
          \<and> length (t_produced t) = 3
          \<and> prefix (message_table (db example_world)) (message_table (t_store t))
          \<and> main_loop_body
               (turn_graph example_generator (mcp_gateway example_service) example_stringify []
                  (Suc (Suc (Suc 0))))
               ''/home'' example_world ''list files'' example_conversation []
              = Some (False,
                  example_world\<lparr>cli := [DisplayThinking, StopThinking,
                                         DisplayError ''An error occurred: upstream error''],
                    graph_invocations :=
                      [initialState example_store ''/home'' example_conversation ''list files''],
                    db := t_store t\<rparr>)"
    by (intro exI [of _ t] conjI)
  with 1 show ?thesis by (intro conjI)
qed

end
